theory Spec2Isabelle
  imports Main "HOL-Library.Word" "HOL-Library.Monad_Syntax"
begin

unbundle bit_operations_syntax

section \<open>Data model (os.h, os.c)\<close>

type_synonym u8 = "8 word"

text \<open>The anonymous enum of os.h: the three states a task can be in.\<close>

datatype task_state = TASK_STATE_READY | TASK_STATE_RUNNING | TASK_STATE_WAITING

text \<open>
  \<open>TaskDescriptor\<close> of os.h. \<open>Stack\<close> is the address of the slot holding the saved
  stack pointer; the kernel services never read or write it.
\<close>

record TaskDescriptor =
  Stack :: nat
  State :: task_state
  Events :: u8
  WaitForEvents :: u8
  RequiredResources :: u8
  Priority :: u8

text \<open>\<open>TimerDescriptor\<close> of os.h.\<close>

record TimerDescriptor =
  Value :: u8
  TaskID :: u8
  Event :: u8

text \<open>
  \<open>CurrentTask\<close> of os.c points either to the descriptor \<open>Main\<close> of the boot context
  or to an entry of the task table.
\<close>

datatype task_ref = MainContext | TaskSlot u8

text \<open>
  The file-scope variables of os.c, together with the two halves of the hardware counter
  TCNT1 that \<open>Uc_ForceSchedule\<close> (uc.c) writes. \<open>Tasks\<close> and \<open>Timers\<close> are the arrays
  handed to \<open>Os_StartOS\<close>; before that call both pointers are NULL, which is the empty
  list here.
\<close>

record kernel =
  Tasks :: "TaskDescriptor list"
  NrTasks :: u8
  Timers :: "TimerDescriptor list"
  CurrentTask :: task_ref
  CurrentTaskIndex :: u8
  ResourcesOccupied :: u8
  TCNT1H :: u8
  TCNT1L :: u8

section \<open>Array access\<close>

text \<open>
  An index beyond the end of an array is undefined behaviour in C. Every read and write of
  \<open>Tasks[i]\<close> and \<open>Timers[i]\<close> goes through the functions below, which return \<open>None\<close>
  there; a service that returns \<open>None\<close> has left the defined behaviour of the program.
\<close>

definition task_at :: "kernel \<Rightarrow> u8 \<Rightarrow> TaskDescriptor option" where
  "task_at k i = (if unat i < length (Tasks k) then Some (Tasks k ! unat i) else None)"

definition task_upd :: "u8 \<Rightarrow> (TaskDescriptor \<Rightarrow> TaskDescriptor) \<Rightarrow> kernel \<Rightarrow> kernel option" where
  "task_upd i f k =
     (if unat i < length (Tasks k)
      then Some (k\<lparr>Tasks := (Tasks k)[unat i := f (Tasks k ! unat i)]\<rparr>)
      else None)"

definition timer_at :: "kernel \<Rightarrow> u8 \<Rightarrow> TimerDescriptor option" where
  "timer_at k i = (if unat i < length (Timers k) then Some (Timers k ! unat i) else None)"

definition timer_upd :: "u8 \<Rightarrow> (TimerDescriptor \<Rightarrow> TimerDescriptor) \<Rightarrow> kernel \<Rightarrow> kernel option" where
  "timer_upd i f k =
     (if unat i < length (Timers k)
      then Some (k\<lparr>Timers := (Timers k)[unat i := f (Timers k ! unat i)]\<rparr>)
      else None)"

section \<open>Hardware layer (uc.c)\<close>

text \<open>
  \<open>Uc_ForceSchedule\<close> winds the counter that drives the scheduler interrupt to its last
  value, so that it overflows on the next cycle. \<open>Os_ForceSchedule\<close> is a macro for it.
\<close>

definition Uc_ForceSchedule :: "kernel \<Rightarrow> kernel" where
  "Uc_ForceSchedule k = k\<lparr>TCNT1H := 0xFF, TCNT1L := 0xFF\<rparr>"

definition Os_ForceSchedule :: "kernel \<Rightarrow> kernel" where
  "Os_ForceSchedule = Uc_ForceSchedule"

section \<open>The scheduler (os.c, Os_Scheduler)\<close>

text \<open>
  The \<open>for\<close> loop of \<open>Os_Scheduler\<close>, with its three locals \<open>TaskIndex\<close>,
  \<open>NextTaskIndex\<close> and \<open>HighestPriority\<close> as arguments; the result is \<open>NextTaskIndex\<close>
  at loop exit.
\<close>

function Os_Scheduler_scan :: "kernel \<Rightarrow> u8 \<Rightarrow> u8 \<Rightarrow> u8 \<Rightarrow> u8 option" where
  "Os_Scheduler_scan k TaskIndex NextTaskIndex HighestPriority =
     (if TaskIndex < NrTasks k then
        (case task_at k TaskIndex of
           None \<Rightarrow> None
         | Some t \<Rightarrow>
             if State t = TASK_STATE_READY \<and> (RequiredResources t AND ResourcesOccupied k) = 0
             then (if Priority t > HighestPriority
                   then Os_Scheduler_scan k (TaskIndex + 1) TaskIndex (Priority t)
                   else Os_Scheduler_scan k (TaskIndex + 1) NextTaskIndex HighestPriority)
             else Os_Scheduler_scan k (TaskIndex + 1) NextTaskIndex HighestPriority)
      else Some NextTaskIndex)"
  by pat_completeness auto
termination
  apply (relation "measure (\<lambda>(k, i, n, h). unat (NrTasks k) - unat i)")
     apply simp
    apply (simp, unat_arith)+
  done

declare Os_Scheduler_scan.simps [simp del]

definition Os_Scheduler :: "kernel \<Rightarrow> kernel option" where
  "Os_Scheduler k = do {
     NextTaskIndex \<leftarrow> Os_Scheduler_scan k 0 0 0;
     curr \<leftarrow> task_at k (CurrentTaskIndex k);
     if State curr = TASK_STATE_READY \<or> State curr = TASK_STATE_WAITING then do {
       k1 \<leftarrow> task_upd NextTaskIndex (\<lambda>t. t\<lparr>State := TASK_STATE_RUNNING\<rparr>) k;
       Some (k1\<lparr>CurrentTaskIndex := NextTaskIndex, CurrentTask := TaskSlot NextTaskIndex\<rparr>)
     }
     else if State curr = TASK_STATE_RUNNING then do {
       nxt \<leftarrow> task_at k NextTaskIndex;
       if Priority nxt > Priority curr then do {
         k1 \<leftarrow> task_upd (CurrentTaskIndex k) (\<lambda>t. t\<lparr>State := TASK_STATE_READY\<rparr>) k;
         k2 \<leftarrow> task_upd NextTaskIndex (\<lambda>t. t\<lparr>State := TASK_STATE_RUNNING\<rparr>) k1;
         Some (k2\<lparr>CurrentTaskIndex := NextTaskIndex, CurrentTask := TaskSlot NextTaskIndex\<rparr>)
       }
       else Some k
     }
     else Some k
   }"

section \<open>Events (os.c)\<close>

definition Os_SetEvent :: "u8 \<Rightarrow> u8 \<Rightarrow> kernel \<Rightarrow> kernel option" where
  "Os_SetEvent TaskId Mask k = do {
     k1 \<leftarrow> task_upd TaskId (\<lambda>t. t\<lparr>Events := Events t OR Mask\<rparr>) k;
     t \<leftarrow> task_at k1 TaskId;
     if (WaitForEvents t AND Events t) \<noteq> 0 then do {
       k2 \<leftarrow> task_upd TaskId (\<lambda>t. t\<lparr>State := TASK_STATE_READY\<rparr>) k1;
       t2 \<leftarrow> task_at k2 TaskId;
       curr \<leftarrow> task_at k2 (CurrentTaskIndex k2);
       if Priority t2 > Priority curr then Some (Os_ForceSchedule k2) else Some k2
     }
     else Some k1
   }"

definition Os_ClearEvents :: "u8 \<Rightarrow> kernel \<Rightarrow> kernel option" where
  "Os_ClearEvents Mask k =
     task_upd (CurrentTaskIndex k) (\<lambda>t. t\<lparr>Events := Events t AND NOT Mask\<rparr>) k"

text \<open>\<open>Os_GetEvents\<close> returns the events of the current task and writes nothing.\<close>

definition Os_GetEvents :: "kernel \<Rightarrow> u8 option" where
  "Os_GetEvents k = do {
     t \<leftarrow> task_at k (CurrentTaskIndex k);
     Some (Events t)
   }"

text \<open>
  \<open>Os_WaitEvents\<close> has two exits. When one of the awaited events is already set it leaves
  its critical section and returns (\<open>Returned\<close>). Otherwise it marks the task as waiting,
  forces a scheduling, leaves the critical section and enters the loop
  \<^verbatim>\<open>for (;;) { if (Tasks[CurrentTaskIndex].Events & Mask) break; }\<close>
  which only reads (\<open>Polling\<close>): the variables are as the critical section left them, and
  the loop ends when another context has set one of the events.
  \<open>Os_WaitEvents_poll\<close> is the test of that loop.
\<close>

datatype wait_exit = Returned | Polling

definition Os_WaitEvents :: "u8 \<Rightarrow> kernel \<Rightarrow> (wait_exit \<times> kernel) option" where
  "Os_WaitEvents Mask k = do {
     k1 \<leftarrow> task_upd (CurrentTaskIndex k) (\<lambda>t. t\<lparr>WaitForEvents := WaitForEvents t OR Mask\<rparr>) k;
     t \<leftarrow> task_at k1 (CurrentTaskIndex k1);
     if (Events t AND Mask) = 0 then do {
       k2 \<leftarrow> task_upd (CurrentTaskIndex k1) (\<lambda>t. t\<lparr>State := TASK_STATE_WAITING\<rparr>) k1;
       Some (Polling, Os_ForceSchedule k2)
     }
     else Some (Returned, k1)
   }"

definition Os_WaitEvents_poll :: "u8 \<Rightarrow> kernel \<Rightarrow> bool option" where
  "Os_WaitEvents_poll Mask k = do {
     t \<leftarrow> task_at k (CurrentTaskIndex k);
     Some ((Events t AND Mask) \<noteq> 0)
   }"

section \<open>Resources (os.c)\<close>

definition Os_GetResources :: "u8 \<Rightarrow> kernel \<Rightarrow> kernel" where
  "Os_GetResources ResID k = k\<lparr>ResourcesOccupied := ResourcesOccupied k OR ResID\<rparr>"

definition Os_ReleaseResources :: "u8 \<Rightarrow> kernel \<Rightarrow> kernel" where
  "Os_ReleaseResources ResID k =
     Os_ForceSchedule (k\<lparr>ResourcesOccupied := ResourcesOccupied k AND NOT ResID\<rparr>)"

section \<open>Timers (os.c)\<close>

definition Os_SetTimer :: "u8 \<Rightarrow> u8 \<Rightarrow> kernel \<Rightarrow> kernel option" where
  "Os_SetTimer TimerID Val k = timer_upd TimerID (\<lambda>t. t\<lparr>Value := Val\<rparr>) k"

definition Os_TickTimer :: "u8 \<Rightarrow> kernel \<Rightarrow> kernel option" where
  "Os_TickTimer TimerID k = do {
     tm \<leftarrow> timer_at k TimerID;
     if Value tm > 0 then do {
       k1 \<leftarrow> timer_upd TimerID (\<lambda>t. t\<lparr>Value := Value t - 1\<rparr>) k;
       tm1 \<leftarrow> timer_at k1 TimerID;
       if Value tm1 = 0 then Os_SetEvent (TaskID tm1) (Event tm1) k1 else Some k1
     }
     else Some k
   }"

section \<open>Start-up (os.c)\<close>

text \<open>
  The variables as their initialisers in os.c leave them; the counter halves are whatever
  the hardware holds. \<open>Os_StartOS\<close> wires the application's tables in and then sleeps
  until the first interrupt.
\<close>

definition boot :: "u8 \<Rightarrow> u8 \<Rightarrow> kernel" where
  "boot h l = \<lparr>Tasks = [], NrTasks = 0, Timers = [], CurrentTask = MainContext,
               CurrentTaskIndex = 0, ResourcesOccupied = 0, TCNT1H = h, TCNT1L = l\<rparr>"

definition Os_StartOS :: "TaskDescriptor list \<Rightarrow> u8 \<Rightarrow> TimerDescriptor list \<Rightarrow> kernel \<Rightarrow> kernel" where
  "Os_StartOS ApTasks NrApTasks ApTimers k =
     k\<lparr>Tasks := ApTasks, NrTasks := NrApTasks, Timers := ApTimers\<rparr>"

section \<open>Sequences of kernel operations\<close>

datatype kernel_op =
    Schedule
  | SetEvent u8 u8
  | ClearEvents u8
  | GetEvents
  | WaitEvents u8
  | GetResources u8
  | ReleaseResources u8
  | SetTimer u8 u8
  | TickTimer u8

text \<open>
  One operation on the kernel variables. For \<open>WaitEvents\<close> this is the critical section
  of the call; what ends its polling loop are the operations of other contexts that follow
  in the sequence.
\<close>

fun kernel_step :: "kernel_op \<Rightarrow> kernel \<Rightarrow> kernel option" where
  "kernel_step Schedule k = Os_Scheduler k"
| "kernel_step (SetEvent t m) k = Os_SetEvent t m k"
| "kernel_step (ClearEvents m) k = Os_ClearEvents m k"
| "kernel_step GetEvents k = do { e \<leftarrow> Os_GetEvents k; Some k }"
| "kernel_step (WaitEvents m) k = map_option snd (Os_WaitEvents m k)"
| "kernel_step (GetResources m) k = Some (Os_GetResources m k)"
| "kernel_step (ReleaseResources m) k = Some (Os_ReleaseResources m k)"
| "kernel_step (SetTimer t v) k = Os_SetTimer t v k"
| "kernel_step (TickTimer t) k = Os_TickTimer t k"

fun kernel_run :: "kernel_op list \<Rightarrow> kernel \<Rightarrow> kernel option" where
  "kernel_run [] k = Some k"
| "kernel_run (c # cs) k = (case kernel_step c k of None \<Rightarrow> None | Some k' \<Rightarrow> kernel_run cs k')"

text \<open>
  The configuration the kernel starts from: every task ready with no event set, no
  resource held, and the index of the current task at its initial value 0.
\<close>

definition initial_configuration :: "kernel \<Rightarrow> bool" where
  "initial_configuration k \<longleftrightarrow>
     list_all (\<lambda>t. State t = TASK_STATE_READY \<and> Events t = 0) (Tasks k)
     \<and> ResourcesOccupied k = 0 \<and> CurrentTaskIndex k = 0"

section \<open>Example configurations\<close>

definition task_entry :: "task_state \<Rightarrow> u8 \<Rightarrow> u8 \<Rightarrow> u8 \<Rightarrow> u8 \<Rightarrow> TaskDescriptor" where
  "task_entry s e w r p =
     \<lparr>Stack = 0, State = s, Events = e, WaitForEvents = w, RequiredResources = r, Priority = p\<rparr>"

text \<open>
  The tables of the demo application (ap.c, ap.h): the idle task, then the model, view and
  controller tasks with priorities 3, 2 and 1 and their resource masks, and the one game
  timer, which posts \<open>EVENT_TIMER\<close> (0x01) to the model task.
\<close>

definition ap_Tasks :: "TaskDescriptor list" where
  "ap_Tasks =
     [task_entry TASK_STATE_READY 0 0 0 0,
      task_entry TASK_STATE_READY 0 0 0x61 3,
      task_entry TASK_STATE_READY 0 0 0x42 2,
      task_entry TASK_STATE_READY 0 0 0x20 1]"

definition ap_Timers :: "TimerDescriptor list" where
  "ap_Timers = [\<lparr>Value = 0, TaskID = 1, Event = 0x01\<rparr>]"

definition ap_start :: kernel where
  "ap_start = Os_StartOS ap_Tasks 4 ap_Timers (boot 0x3C 0xB0)"

text \<open>
  The application some time later: the model task waits for \<open>EVENT_TIMER\<close> or
  \<open>EVENT_UPDATE\<close> (0x03), the view task has been woken by \<open>EVENT_DRAW\<close> (0x04) and
  runs, and the scheduler interrupt has reloaded its counter.
\<close>

definition view_running :: kernel where
  "view_running =
     \<lparr>Tasks = [task_entry TASK_STATE_READY 0 0 0 0,
               task_entry TASK_STATE_WAITING 0 0x03 0x61 3,
               task_entry TASK_STATE_RUNNING 0x04 0x04 0x42 2,
               task_entry TASK_STATE_READY 0 0 0x20 1],
      NrTasks = 4, Timers = ap_Timers, CurrentTask = TaskSlot 2, CurrentTaskIndex = 2,
      ResourcesOccupied = 0, TCNT1H = 0x3C, TCNT1L = 0xB0\<rparr>"

text \<open>The application holding the board (\<open>RESOURCE_BOARD\<close>, 0x40).\<close>

definition board_held :: kernel where
  "board_held = Os_GetResources 0x40 ap_start"

text \<open>
  A table with unique priorities whose idle task (priority 0, no resources) is the second
  entry, and one with two tasks of priority 0 behind a task of priority 1.
\<close>

definition worker_first :: kernel where
  "worker_first =
     Os_StartOS [task_entry TASK_STATE_READY 0 0 0 1, task_entry TASK_STATE_READY 0 0 0 0]
       2 [] (boot 0x3C 0xB0)"

definition two_at_zero :: kernel where
  "two_at_zero =
     Os_StartOS [task_entry TASK_STATE_READY 0 0 0 1, task_entry TASK_STATE_READY 0 0 0 0,
                 task_entry TASK_STATE_READY 0 0 0 0]
       3 [] (boot 0x3C 0xB0)"

text \<open>
  \<open>worker_first\<close> and \<open>two_at_zero\<close> after the first scheduling and a call of
  \<open>Os_WaitEvents 0x01\<close> by the task of priority 1.
\<close>

definition worker_waits :: kernel where
  "worker_waits =
     \<lparr>Tasks = [task_entry TASK_STATE_WAITING 0 0x01 0 1, task_entry TASK_STATE_READY 0 0 0 0],
      NrTasks = 2, Timers = [], CurrentTask = TaskSlot 0, CurrentTaskIndex = 0,
      ResourcesOccupied = 0, TCNT1H = 0xFF, TCNT1L = 0xFF\<rparr>"

definition two_at_zero_waits :: kernel where
  "two_at_zero_waits =
     \<lparr>Tasks = [task_entry TASK_STATE_WAITING 0 0x01 0 1, task_entry TASK_STATE_READY 0 0 0 0,
               task_entry TASK_STATE_READY 0 0 0 0],
      NrTasks = 3, Timers = [], CurrentTask = TaskSlot 0, CurrentTaskIndex = 0,
      ResourcesOccupied = 0, TCNT1H = 0xFF, TCNT1L = 0xFF\<rparr>"

text \<open>
  Tables with two tasks of equal priority: below the highest priority, and at it.
\<close>

definition tie_below_top :: kernel where
  "tie_below_top =
     Os_StartOS [task_entry TASK_STATE_READY 0 0 0 0, task_entry TASK_STATE_READY 0 0 0 2,
                 task_entry TASK_STATE_READY 0 0 0 1, task_entry TASK_STATE_READY 0 0 0 1]
       4 [] (boot 0x3C 0xB0)"

definition tie_at_top :: kernel where
  "tie_at_top =
     Os_StartOS [task_entry TASK_STATE_READY 0 0 0 0, task_entry TASK_STATE_READY 0 0 0 1,
                 task_entry TASK_STATE_READY 0 0 0 2, task_entry TASK_STATE_READY 0 0 0 2]
       4 [] (boot 0x3C 0xB0)"

text \<open>
  Two tasks that declare the same resource 0x01, in front of the idle task.
\<close>

definition shared_resource :: kernel where
  "shared_resource =
     Os_StartOS [task_entry TASK_STATE_READY 0 0 0x01 1, task_entry TASK_STATE_READY 0 0 0x01 2,
                 task_entry TASK_STATE_READY 0 0 0 0]
       3 [] (boot 0x3C 0xB0)"

text \<open>The states of the tasks of a configuration, in table order.\<close>

definition task_states :: "kernel \<Rightarrow> task_state list" where
  "task_states k = map State (Tasks k)"

section \<open>What the scheduler's loop selects\<close>

text \<open>
  \<open>eligible\<close> is the test of the loop body (task ready, none of its required resources
  occupied); a candidate is an index below \<open>NrTasks\<close> whose task passes it; \<open>prio\<close> reads
  the priority at an index.
\<close>

definition eligible :: "kernel \<Rightarrow> TaskDescriptor \<Rightarrow> bool" where
  "eligible k t \<longleftrightarrow>
     State t = TASK_STATE_READY \<and> RequiredResources t AND ResourcesOccupied k = 0"

definition candidate :: "kernel \<Rightarrow> nat \<Rightarrow> bool" where
  "candidate k j \<longleftrightarrow> j < unat (NrTasks k) \<and> eligible k (Tasks k ! j)"

definition prio :: "kernel \<Rightarrow> nat \<Rightarrow> u8" where
  "prio k j = Priority (Tasks k ! j)"

text \<open>
  The loop's result \<open>n\<close> when started at index \<open>i\<close> with \<open>NextTaskIndex = nxt\<close> and
  \<open>HighestPriority = hp\<close>: if some candidate from \<open>i\<close> on has a priority above \<open>hp\<close>, then
  \<open>n\<close> is such a candidate, no candidate from \<open>i\<close> on has a higher priority, and every
  candidate between \<open>i\<close> and \<open>n\<close> has a lower one; otherwise \<open>n\<close> is \<open>nxt\<close>.
\<close>

definition scan_post :: "kernel \<Rightarrow> nat \<Rightarrow> u8 \<Rightarrow> u8 \<Rightarrow> u8 \<Rightarrow> bool" where
  "scan_post k i nxt hp n \<longleftrightarrow>
     (if \<exists>j. i \<le> j \<and> candidate k j \<and> hp < prio k j
      then i \<le> unat n \<and> candidate k (unat n) \<and> hp < prio k (unat n)
           \<and> (\<forall>j. i \<le> j \<and> candidate k j \<longrightarrow> prio k j \<le> prio k (unat n))
           \<and> (\<forall>j. i \<le> j \<and> j < unat n \<and> candidate k j \<longrightarrow> prio k j < prio k (unat n))
      else n = nxt)"

section \<open>Observations used in the invariants\<close>

text \<open>
  The wait masks in table order; \<open>masks_grow k k'\<close> says that the tables have the same
  length and no task has lost a bit of its wait mask from \<open>k\<close> to \<open>k'\<close>.
\<close>

definition wait_masks :: "kernel \<Rightarrow> u8 list" where
  "wait_masks k = map WaitForEvents (Tasks k)"

definition masks_grow :: "kernel \<Rightarrow> kernel \<Rightarrow> bool" where
  "masks_grow k k' \<longleftrightarrow> list_all2 (\<lambda>w w'. w AND w' = w) (wait_masks k) (wait_masks k')"

text \<open>
  No task other than the one \<open>CurrentTaskIndex\<close> names is running; and the descriptors
  that are in state running.
\<close>

definition only_current_runs :: "kernel \<Rightarrow> bool" where
  "only_current_runs k \<longleftrightarrow>
     (\<forall>i < length (Tasks k). State (Tasks k ! i) = TASK_STATE_RUNNING \<longrightarrow> i = unat (CurrentTaskIndex k))"

definition running_tasks :: "kernel \<Rightarrow> TaskDescriptor list" where
  "running_tasks k = filter (\<lambda>t. State t = TASK_STATE_RUNNING) (Tasks k)"

section \<open>Bit masks\<close>

lemma u8_or_and_not:
  fixes r m :: u8
  shows "(r OR m) AND NOT m = r AND NOT m"
  by (rule bit_word_eqI) (auto simp: bit_simps)

lemma u8_and_not_disjoint:
  fixes r m :: u8
  assumes "r AND m = 0"
  shows "r AND NOT m = r"
proof (rule bit_word_eqI)
  fix n assume n: "n < LENGTH(8)"
  from assms have "\<not> bit (r AND m) n" by simp
  with n show "bit (r AND NOT m) n = bit r n"
    by (auto simp: bit_simps)
qed

lemma u8_or_and_self:
  fixes e m :: u8
  shows "(e OR m) AND m = m"
  by (rule bit_word_eqI) (auto simp: bit_simps)

lemmas example_defs =
  task_entry_def ap_Tasks_def ap_Timers_def ap_start_def boot_def Os_StartOS_def

lemmas access_defs = task_at_def task_upd_def timer_at_def timer_upd_def

lemmas force_defs = Os_ForceSchedule_def Uc_ForceSchedule_def

section \<open>Resources\<close>

text \<open>
  C6, as amended. When no bit of the mask \<open>m\<close> is set in \<open>ResourcesOccupied\<close> beforehand,
  \<open>Os_GetResources m\<close> followed by \<open>Os_ReleaseResources m\<close> leaves \<open>ResourcesOccupied\<close>
  at its value before the two calls.
\<close>

theorem get_release_resources_disjoint:
  assumes "ResourcesOccupied k AND m = 0"
  shows "ResourcesOccupied (Os_ReleaseResources m (Os_GetResources m k)) = ResourcesOccupied k"
  using assms
  by (simp add: Os_ReleaseResources_def Os_GetResources_def force_defs
      u8_or_and_not u8_and_not_disjoint)

theorem get_release_resources_disjoint_witness:
  "ResourcesOccupied ap_start AND 0x40 = 0
   \<and> ResourcesOccupied (Os_ReleaseResources 0x40 (Os_GetResources 0x40 ap_start))
       = ResourcesOccupied ap_start"
proof -
  have h: "ResourcesOccupied ap_start AND 0x40 = 0"
    by (simp add: example_defs)
  from get_release_resources_disjoint [OF h] h show ?thesis
    by simp
qed

text \<open>
  With the board already held, taking and releasing it again leaves it free: the bitmap
  does not count holders.
\<close>

theorem get_release_resources_counterexample:
  "ResourcesOccupied (Os_ReleaseResources 0x40 (Os_GetResources 0x40 board_held))
   \<noteq> ResourcesOccupied board_held"
  by (simp add: example_defs board_held_def Os_ReleaseResources_def Os_GetResources_def force_defs)

section \<open>Events\<close>

text \<open>
  C4, as amended. For every task id \<open>t\<close> in the table, mask \<open>m\<close> and kernel state with a
  valid current task, \<open>Os_SetEvent t m\<close> returns a state in which the events of task \<open>t\<close>
  contain every bit of \<open>m\<close>; if after the OR the task's wait mask meets its events, its
  state is ready; and the forced-reschedule signal is raised (both counter halves wound to
  0xFF) exactly when the wait mask meets the events and the priority of task \<open>t\<close> exceeds
  that of the current task. Otherwise the counter is left as it was.
\<close>

theorem set_event_effect:
  assumes "task_at k t = Some d" and "task_at k (CurrentTaskIndex k) = Some c"
  shows "\<exists>k' d'. Os_SetEvent t m k = Some k' \<and> task_at k' t = Some d'
           \<and> Events d' AND m = m
           \<and> (WaitForEvents d' AND Events d' \<noteq> 0 \<longrightarrow> State d' = TASK_STATE_READY)
           \<and> (WaitForEvents d' AND Events d' \<noteq> 0 \<and> Priority d > Priority c
                  \<longrightarrow> TCNT1H k' = 0xFF \<and> TCNT1L k' = 0xFF)
           \<and> (\<not> (WaitForEvents d' AND Events d' \<noteq> 0 \<and> Priority d > Priority c)
                  \<longrightarrow> TCNT1H k' = TCNT1H k \<and> TCNT1L k' = TCNT1L k)"
  using assms
  by (auto simp: Os_SetEvent_def access_defs force_defs u8_or_and_self nth_list_update
      split: if_splits)

theorem set_event_effect_witness:
  "task_at view_running 1 = Some (task_entry TASK_STATE_WAITING 0 0x03 0x61 3)
   \<and> task_at view_running (CurrentTaskIndex view_running)
       = Some (task_entry TASK_STATE_RUNNING 0x04 0x04 0x42 2)
   \<and> (\<exists>k' d'. Os_SetEvent 1 0x01 view_running = Some k' \<and> task_at k' 1 = Some d'
          \<and> Events d' AND 0x01 = 0x01 \<and> State d' = TASK_STATE_READY
          \<and> TCNT1H k' = 0xFF \<and> TCNT1L k' = 0xFF)"
proof -
  have h1: "task_at view_running 1 = Some (task_entry TASK_STATE_WAITING 0 0x03 0x61 3)"
    by (simp add: example_defs view_running_def access_defs)
  have h2: "task_at view_running (CurrentTaskIndex view_running)
              = Some (task_entry TASK_STATE_RUNNING 0x04 0x04 0x42 2)"
    by (simp add: example_defs view_running_def access_defs)
  have woken: "Os_SetEvent 1 0x01 view_running = Some k' \<Longrightarrow> task_at k' 1 = Some d'
                 \<Longrightarrow> WaitForEvents d' AND Events d' \<noteq> 0" for k' d'
    by (auto simp: Os_SetEvent_def example_defs view_running_def access_defs force_defs)
  from set_event_effect [OF h1 h2, of "0x01"] obtain k' d' where
    r: "Os_SetEvent 1 0x01 view_running = Some k'" "task_at k' 1 = Some d'"
       "Events d' AND 0x01 = 0x01"
       "WaitForEvents d' AND Events d' \<noteq> 0 \<longrightarrow> State d' = TASK_STATE_READY"
       "WaitForEvents d' AND Events d' \<noteq> 0
          \<and> Priority (task_entry TASK_STATE_WAITING 0 0x03 0x61 3)
              > Priority (task_entry TASK_STATE_RUNNING 0x04 0x04 0x42 2)
        \<longrightarrow> TCNT1H k' = 0xFF \<and> TCNT1L k' = 0xFF"
    by blast
  from woken [OF r(1,2)] r(4,5) have "State d' = TASK_STATE_READY"
    and "TCNT1H k' = 0xFF \<and> TCNT1L k' = 0xFF"
    by (simp_all add: task_entry_def)
  with h1 h2 r(1,2,3) show ?thesis
    by blast
qed

text \<open>
  An event the model task does not wait for is posted to it while the view task, of lower
  priority, runs: the counter stays at the value the interrupt loaded.
\<close>

theorem set_event_force_counterexample:
  "Priority (Tasks view_running ! unat (CurrentTaskIndex view_running))
     < Priority (Tasks view_running ! 1)
   \<and> map_option TCNT1H (Os_SetEvent 1 0x04 view_running) = Some 0x3C
   \<and> map_option TCNT1L (Os_SetEvent 1 0x04 view_running) = Some 0xB0"
  by (simp add: Os_SetEvent_def example_defs view_running_def access_defs force_defs)

text \<open>
  C5. For every mask \<open>m\<close> and kernel state with a valid current task, \<open>Os_WaitEvents m\<close>
  ORs \<open>m\<close> into the wait mask of the current task. If the task's events meet \<open>m\<close> the
  call returns at once and that is the only change: the task's state and events and every
  other kernel variable are as before. Only if no bit of \<open>m\<close> is set does it also set the
  task's state to waiting and raise the forced-reschedule signal, and then polls.
\<close>

theorem wait_events_effect:
  assumes "task_at k (CurrentTaskIndex k) = Some t"
  shows "Os_WaitEvents m k =
     (if Events t AND m \<noteq> 0
      then Some (Returned,
                 k\<lparr>Tasks := (Tasks k)[unat (CurrentTaskIndex k) :=
                                 t\<lparr>WaitForEvents := WaitForEvents t OR m\<rparr>]\<rparr>)
      else Some (Polling,
                 k\<lparr>Tasks := (Tasks k)[unat (CurrentTaskIndex k) :=
                                 t\<lparr>WaitForEvents := WaitForEvents t OR m,
                                   State := TASK_STATE_WAITING\<rparr>],
                   TCNT1H := 0xFF, TCNT1L := 0xFF\<rparr>))"
  using assms
  by (auto simp: Os_WaitEvents_def access_defs force_defs split: if_splits)

lemma wait_events_polling_blocked:
  assumes "Os_WaitEvents m k = Some (Polling, k')"
  shows "Os_WaitEvents_poll m k' = Some False"
  using assms
  by (auto simp: Os_WaitEvents_def Os_WaitEvents_poll_def access_defs force_defs
      bind_eq_Some_conv split: if_splits)

theorem wait_events_effect_witness:
  "task_at view_running (CurrentTaskIndex view_running)
     = Some (task_entry TASK_STATE_RUNNING 0x04 0x04 0x42 2)
   \<and> Os_WaitEvents 0x04 view_running = Some (Returned, view_running)
   \<and> Os_WaitEvents 0x01 view_running
       = Some (Polling,
               view_running\<lparr>Tasks := (Tasks view_running)
                               [2 := task_entry TASK_STATE_WAITING 0x04 0x05 0x42 2],
                            TCNT1H := 0xFF, TCNT1L := 0xFF\<rparr>)"
proof -
  have h: "task_at view_running (CurrentTaskIndex view_running)
             = Some (task_entry TASK_STATE_RUNNING 0x04 0x04 0x42 2)"
    by (simp add: example_defs view_running_def access_defs)
  from wait_events_effect [OF h, of "0x04"] wait_events_effect [OF h, of "0x01"] h
  show ?thesis
    by (simp add: example_defs view_running_def)
qed

section \<open>Case analysis of the services\<close>

text \<open>
  What a defined call of \<open>Os_Scheduler\<close> did: kept the running task, dispatched the
  selected task because the current one was not running, or preempted the current task.
\<close>

lemma Os_Scheduler_cases:
  assumes "Os_Scheduler k = Some k'"
  obtains (keep) n curr where "Os_Scheduler_scan k 0 0 0 = Some n"
      "task_at k (CurrentTaskIndex k) = Some curr" "State curr = TASK_STATE_RUNNING" "k' = k"
  | (dispatch) n curr k1 where "Os_Scheduler_scan k 0 0 0 = Some n"
      "task_at k (CurrentTaskIndex k) = Some curr" "State curr \<noteq> TASK_STATE_RUNNING"
      "task_upd n (\<lambda>t. t\<lparr>State := TASK_STATE_RUNNING\<rparr>) k = Some k1"
      "k' = k1\<lparr>CurrentTaskIndex := n, CurrentTask := TaskSlot n\<rparr>"
  | (preempt) n curr nxt k1 k2 where "Os_Scheduler_scan k 0 0 0 = Some n"
      "task_at k (CurrentTaskIndex k) = Some curr" "State curr = TASK_STATE_RUNNING"
      "task_at k n = Some nxt" "Priority curr < Priority nxt"
      "task_upd (CurrentTaskIndex k) (\<lambda>t. t\<lparr>State := TASK_STATE_READY\<rparr>) k = Some k1"
      "task_upd n (\<lambda>t. t\<lparr>State := TASK_STATE_RUNNING\<rparr>) k1 = Some k2"
      "k' = k2\<lparr>CurrentTaskIndex := n, CurrentTask := TaskSlot n\<rparr>"
proof -
  from assms obtain n where n: "Os_Scheduler_scan k 0 0 0 = Some n"
    by (cases "Os_Scheduler_scan k 0 0 0") (simp_all add: Os_Scheduler_def)
  from assms n obtain curr where c: "task_at k (CurrentTaskIndex k) = Some curr"
    by (cases "task_at k (CurrentTaskIndex k)") (simp_all add: Os_Scheduler_def)
  show thesis
  proof (cases "State curr = TASK_STATE_RUNNING")
    case False
    then have rw: "State curr = TASK_STATE_READY \<or> State curr = TASK_STATE_WAITING"
      by (cases "State curr") simp_all
    from assms n c rw obtain k1 where
      k1: "task_upd n (\<lambda>t. t\<lparr>State := TASK_STATE_RUNNING\<rparr>) k = Some k1"
      by (cases "task_upd n (\<lambda>t. t\<lparr>State := TASK_STATE_RUNNING\<rparr>) k")
         (simp_all add: Os_Scheduler_def)
    from assms n c rw k1 have "k' = k1\<lparr>CurrentTaskIndex := n, CurrentTask := TaskSlot n\<rparr>"
      by (simp add: Os_Scheduler_def)
    with n c False k1 show thesis by (rule dispatch)
  next
    case True
    from assms n c True obtain nxt where nx: "task_at k n = Some nxt"
      by (cases "task_at k n") (simp_all add: Os_Scheduler_def)
    show thesis
    proof (cases "Priority curr < Priority nxt")
      case False
      with assms n c True nx have "k' = k" by (simp add: Os_Scheduler_def)
      with n c True show thesis by (rule keep)
    next
      case hi: True
      from assms n c True nx hi obtain k1 where
        k1: "task_upd (CurrentTaskIndex k) (\<lambda>t. t\<lparr>State := TASK_STATE_READY\<rparr>) k = Some k1"
        by (cases "task_upd (CurrentTaskIndex k) (\<lambda>t. t\<lparr>State := TASK_STATE_READY\<rparr>) k")
           (simp_all add: Os_Scheduler_def)
      from assms n c True nx hi k1 obtain k2 where
        k2: "task_upd n (\<lambda>t. t\<lparr>State := TASK_STATE_RUNNING\<rparr>) k1 = Some k2"
        by (cases "task_upd n (\<lambda>t. t\<lparr>State := TASK_STATE_RUNNING\<rparr>) k1")
           (simp_all add: Os_Scheduler_def)
      from assms n c True nx hi k1 k2
      have "k' = k2\<lparr>CurrentTaskIndex := n, CurrentTask := TaskSlot n\<rparr>"
        by (simp add: Os_Scheduler_def)
      with n c True nx hi k1 k2 show thesis by (rule preempt)
    qed
  qed
qed


lemma Os_SetEvent_cases:
  assumes "Os_SetEvent t m k = Some k'"
  obtains (quiet) k1 where "task_upd t (\<lambda>d. d\<lparr>Events := Events d OR m\<rparr>) k = Some k1" "k' = k1"
  | (woken) k1 k2 where "task_upd t (\<lambda>d. d\<lparr>Events := Events d OR m\<rparr>) k = Some k1"
      "task_upd t (\<lambda>d. d\<lparr>State := TASK_STATE_READY\<rparr>) k1 = Some k2"
      "k' = k2 \<or> k' = Os_ForceSchedule k2"
proof -
  from assms obtain k1 where k1: "task_upd t (\<lambda>d. d\<lparr>Events := Events d OR m\<rparr>) k = Some k1"
    by (cases "task_upd t (\<lambda>d. d\<lparr>Events := Events d OR m\<rparr>) k") (simp_all add: Os_SetEvent_def)
  from assms k1 obtain d where d: "task_at k1 t = Some d"
    by (cases "task_at k1 t") (simp_all add: Os_SetEvent_def)
  show thesis
  proof (cases "WaitForEvents d AND Events d = 0")
    case True
    with assms k1 d have "k' = k1" by (simp add: Os_SetEvent_def)
    with k1 show thesis by (rule quiet)
  next
    case False
    from assms k1 d False obtain k2 where
      k2: "task_upd t (\<lambda>d. d\<lparr>State := TASK_STATE_READY\<rparr>) k1 = Some k2"
      by (cases "task_upd t (\<lambda>d. d\<lparr>State := TASK_STATE_READY\<rparr>) k1")
         (simp_all add: Os_SetEvent_def)
    from assms k1 d False k2 have "k' = k2 \<or> k' = Os_ForceSchedule k2"
      by (auto simp: Os_SetEvent_def bind_eq_Some_conv split: if_splits)
    with k1 k2 show thesis by (rule woken)
  qed
qed

lemma Os_WaitEvents_cases:
  assumes "Os_WaitEvents m k = Some (x, k')"
  obtains (returned) k1 where
      "task_upd (CurrentTaskIndex k) (\<lambda>d. d\<lparr>WaitForEvents := WaitForEvents d OR m\<rparr>) k = Some k1"
      "k' = k1"
  | (polling) k1 k2 where
      "task_upd (CurrentTaskIndex k) (\<lambda>d. d\<lparr>WaitForEvents := WaitForEvents d OR m\<rparr>) k = Some k1"
      "task_upd (CurrentTaskIndex k) (\<lambda>d. d\<lparr>State := TASK_STATE_WAITING\<rparr>) k1 = Some k2"
      "k' = Os_ForceSchedule k2"
proof -
  let ?w = "\<lambda>d::TaskDescriptor. d\<lparr>WaitForEvents := WaitForEvents d OR m\<rparr>"
  from assms obtain k1 where k1: "task_upd (CurrentTaskIndex k) ?w k = Some k1"
    by (cases "task_upd (CurrentTaskIndex k) ?w k") (simp_all add: Os_WaitEvents_def)
  then have cur: "CurrentTaskIndex k1 = CurrentTaskIndex k"
    by (auto simp: task_upd_def split: if_splits)
  from assms k1 obtain d where d: "task_at k1 (CurrentTaskIndex k1) = Some d"
    by (cases "task_at k1 (CurrentTaskIndex k1)") (simp_all add: Os_WaitEvents_def)
  show thesis
  proof (cases "Events d AND m = 0")
    case False
    with assms k1 d have "k' = k1" by (simp add: Os_WaitEvents_def)
    with k1 show thesis by (rule returned)
  next
    case True
    from assms k1 d True obtain k2 where
      k2: "task_upd (CurrentTaskIndex k1) (\<lambda>d. d\<lparr>State := TASK_STATE_WAITING\<rparr>) k1 = Some k2"
      by (cases "task_upd (CurrentTaskIndex k1) (\<lambda>d. d\<lparr>State := TASK_STATE_WAITING\<rparr>) k1")
         (simp_all add: Os_WaitEvents_def)
    from assms k1 d True k2 have "k' = Os_ForceSchedule k2"
      by (simp add: Os_WaitEvents_def)
    with k1 k2 cur show thesis by (simp add: polling)
  qed
qed

lemma Os_TickTimer_cases:
  assumes "Os_TickTimer t k = Some k'"
  obtains (idle) "k' = k"
  | (counted) k1 where "timer_upd t (\<lambda>d. d\<lparr>Value := Value d - 1\<rparr>) k = Some k1" "k' = k1"
  | (expired) k1 ow ev where "timer_upd t (\<lambda>d. d\<lparr>Value := Value d - 1\<rparr>) k = Some k1"
      "Os_SetEvent ow ev k1 = Some k'"
proof -
  from assms obtain tm where tm: "timer_at k t = Some tm"
    by (cases "timer_at k t") (simp_all add: Os_TickTimer_def)
  show thesis
  proof (cases "0 < Value tm")
    case False
    with assms tm have "k' = k" by (simp add: Os_TickTimer_def)
    then show thesis by (rule idle)
  next
    case True
    from assms tm True obtain k1 where
      k1: "timer_upd t (\<lambda>d. d\<lparr>Value := Value d - 1\<rparr>) k = Some k1"
      by (cases "timer_upd t (\<lambda>d. d\<lparr>Value := Value d - 1\<rparr>) k") (simp_all add: Os_TickTimer_def)
    from assms tm True k1 obtain tm1 where tm1: "timer_at k1 t = Some tm1"
      by (cases "timer_at k1 t") (simp_all add: Os_TickTimer_def)
    show thesis
    proof (cases "Value tm1 = 0")
      case False
      with assms tm True k1 tm1 have "k' = k1" by (simp add: Os_TickTimer_def)
      with k1 show thesis by (rule counted)
    next
      case z: True
      with assms tm True k1 tm1 have "Os_SetEvent (TaskID tm1) (Event tm1) k1 = Some k'"
        by (simp add: Os_TickTimer_def)
      with k1 show thesis by (rule expired)
    qed
  qed
qed

section \<open>Wait masks only grow\<close>

lemma u8_and_or_absorb:
  fixes w m :: u8
  shows "w AND (w OR m) = w"
  by (rule bit_word_eqI) (auto simp: bit_simps)

lemma u8_mask_hit:
  fixes w W m e :: u8
  assumes "w AND W = w" and "m AND w \<noteq> 0"
  shows "W AND (e OR m) \<noteq> 0"
proof
  assume z: "W AND (e OR m) = 0"
  have "m AND w = 0"
  proof (rule bit_word_eqI)
    fix n assume "n < LENGTH(8)"
    from z have "\<not> bit (W AND (e OR m)) n" by simp
    moreover from assms(1) have "bit w n \<Longrightarrow> bit W n" by (metis bit_and_iff)
    ultimately show "bit (m AND w) n = bit (0::u8) n" by (auto simp: bit_simps)
  qed
  with assms(2) show False by simp
qed

lemma masks_grow_refl: "masks_grow k k"
  by (simp add: masks_grow_def list_all2_conv_all_nth)

lemma masks_grow_trans:
  assumes "masks_grow a b" and "masks_grow b c"
  shows "masks_grow a c"
proof -
  have step: "x AND z = x" if "x AND y = x" "y AND z = y" for x y z :: u8
    using that by (metis and.assoc)
  from assms have len: "length (wait_masks a) = length (wait_masks b)"
      "length (wait_masks b) = length (wait_masks c)"
    and ab: "\<And>i. i < length (wait_masks a) \<Longrightarrow>
               wait_masks a ! i AND wait_masks b ! i = wait_masks a ! i"
    and bc: "\<And>i. i < length (wait_masks b) \<Longrightarrow>
               wait_masks b ! i AND wait_masks c ! i = wait_masks b ! i"
    by (simp_all add: masks_grow_def list_all2_conv_all_nth)
  show ?thesis
    unfolding masks_grow_def list_all2_conv_all_nth
  proof (intro conjI allI impI)
    show "length (wait_masks a) = length (wait_masks c)"
      using len by simp
  next
    fix i assume i: "i < length (wait_masks a)"
    show "wait_masks a ! i AND wait_masks c ! i = wait_masks a ! i"
    proof (rule step)
      from i show "wait_masks a ! i AND wait_masks b ! i = wait_masks a ! i" by (rule ab)
      from i len show "wait_masks b ! i AND wait_masks c ! i = wait_masks b ! i" by (simp add: bc)
    qed
  qed
qed

lemma masks_grow_same_tasks: "Tasks k' = Tasks k \<Longrightarrow> masks_grow k k'"
  by (simp add: masks_grow_def wait_masks_def list_all2_conv_all_nth)

lemma task_upd_masks:
  assumes "task_upd i f k = Some k'"
    and "\<And>t. WaitForEvents t AND WaitForEvents (f t) = WaitForEvents t"
  shows "masks_grow k k'"
  using assms
  by (auto simp: task_upd_def masks_grow_def wait_masks_def list_all2_conv_all_nth
      nth_list_update split: if_splits)

lemma timer_upd_tasks:
  "timer_upd i f k = Some k' \<Longrightarrow> Tasks k' = Tasks k \<and> CurrentTaskIndex k' = CurrentTaskIndex k"
  by (auto simp: timer_upd_def split: if_splits)

lemma masks_grow_force: "masks_grow k k' \<Longrightarrow> masks_grow k (Os_ForceSchedule k')"
  by (simp add: masks_grow_def wait_masks_def force_defs)

lemma masks_grow_current:
  "masks_grow k k' \<Longrightarrow> masks_grow k (k'\<lparr>CurrentTaskIndex := n, CurrentTask := r\<rparr>)"
  by (simp add: masks_grow_def wait_masks_def)

lemma set_event_masks:
  assumes "Os_SetEvent t m k = Some k'"
  shows "masks_grow k k'"
  using assms
proof (cases rule: Os_SetEvent_cases)
  case (quiet k1)
  from quiet(1) have "masks_grow k k1" by (rule task_upd_masks) simp
  with quiet(2) show ?thesis by simp
next
  case (woken k1 k2)
  from woken(1) have "masks_grow k k1" by (rule task_upd_masks) simp
  moreover from woken(2) have "masks_grow k1 k2" by (rule task_upd_masks) simp
  ultimately have "masks_grow k k2" by (rule masks_grow_trans)
  with woken(3) show ?thesis by (auto intro: masks_grow_force)
qed

lemma scheduler_masks:
  assumes "Os_Scheduler k = Some k'"
  shows "masks_grow k k'"
  using assms
proof (cases rule: Os_Scheduler_cases)
  case (keep n curr)
  then show ?thesis by (simp add: masks_grow_refl)
next
  case (dispatch n curr k1)
  from dispatch(4) have "masks_grow k k1" by (rule task_upd_masks) simp
  with dispatch(5) show ?thesis by (simp add: masks_grow_current)
next
  case (preempt n curr nxt k1 k2)
  from preempt(6) have "masks_grow k k1" by (rule task_upd_masks) simp
  moreover from preempt(7) have "masks_grow k1 k2" by (rule task_upd_masks) simp
  ultimately have "masks_grow k k2" by (rule masks_grow_trans)
  with preempt(8) show ?thesis by (simp add: masks_grow_current)
qed

lemma wait_events_masks:
  assumes "Os_WaitEvents m k = Some (x, k')"
  shows "masks_grow k k'"
  using assms
proof (cases rule: Os_WaitEvents_cases)
  case (returned k1)
  from returned(1) have "masks_grow k k1" by (rule task_upd_masks) (simp add: u8_and_or_absorb)
  with returned(2) show ?thesis by simp
next
  case (polling k1 k2)
  from polling(1) have "masks_grow k k1" by (rule task_upd_masks) (simp add: u8_and_or_absorb)
  moreover from polling(2) have "masks_grow k1 k2" by (rule task_upd_masks) simp
  ultimately have "masks_grow k k2" by (rule masks_grow_trans)
  with polling(3) show ?thesis by (simp add: masks_grow_force)
qed

lemma tick_timer_masks:
  assumes "Os_TickTimer t k = Some k'"
  shows "masks_grow k k'"
  using assms
proof (cases rule: Os_TickTimer_cases)
  case idle
  then show ?thesis by (simp add: masks_grow_refl)
next
  case (counted k1)
  then show ?thesis by (auto dest: timer_upd_tasks intro: masks_grow_same_tasks)
next
  case (expired k1 ow ev)
  from expired(1) have "masks_grow k k1" by (auto dest: timer_upd_tasks intro: masks_grow_same_tasks)
  moreover from expired(2) have "masks_grow k1 k'" by (rule set_event_masks)
  ultimately show ?thesis by (rule masks_grow_trans)
qed

lemma step_masks:
  assumes "kernel_step c k = Some k'"
  shows "masks_grow k k'"
proof (cases c)
  case Schedule
  with assms show ?thesis by (simp add: scheduler_masks)
next
  case (SetEvent t m)
  with assms show ?thesis by (simp add: set_event_masks)
next
  case (ClearEvents m)
  with assms have "task_upd (CurrentTaskIndex k) (\<lambda>t. t\<lparr>Events := Events t AND NOT m\<rparr>) k = Some k'"
    by (simp add: Os_ClearEvents_def)
  then show ?thesis by (rule task_upd_masks) simp
next
  case GetEvents
  with assms have "k' = k" by (auto simp: bind_eq_Some_conv)
  then show ?thesis by (simp add: masks_grow_refl)
next
  case (WaitEvents m)
  with assms obtain x where "Os_WaitEvents m k = Some (x, k')" by auto
  then show ?thesis by (rule wait_events_masks)
next
  case (GetResources m)
  with assms show ?thesis by (auto simp: Os_GetResources_def intro: masks_grow_same_tasks)
next
  case (ReleaseResources m)
  with assms show ?thesis
    by (auto simp: Os_ReleaseResources_def force_defs intro: masks_grow_same_tasks)
next
  case (SetTimer t v)
  with assms show ?thesis
    by (auto simp: Os_SetTimer_def dest: timer_upd_tasks intro: masks_grow_same_tasks)
next
  case (TickTimer t)
  with assms show ?thesis by (simp add: tick_timer_masks)
qed

lemma run_masks: "kernel_run cs k = Some k' \<Longrightarrow> masks_grow k k'"
proof (induction cs arbitrary: k)
  case Nil
  then show ?case by (simp add: masks_grow_refl)
next
  case (Cons c cs)
  from Cons.prems obtain k1 where s: "kernel_step c k = Some k1" and r: "kernel_run cs k1 = Some k'"
    by (auto split: option.splits)
  from s have "masks_grow k k1" by (rule step_masks)
  moreover from r have "masks_grow k1 k'" by (rule Cons.IH)
  ultimately show ?case by (rule masks_grow_trans)
qed

section \<open>At most one task is running\<close>

lemma filter_at_most_one:
  assumes "\<forall>i < length xs. P (xs ! i) \<longrightarrow> i = c"
  shows "length (filter P xs) \<le> 1"
  using assms
proof (induction xs arbitrary: c)
  case Nil
  then show ?case by simp
next
  case (Cons x xs)
  show ?case
  proof (cases "P x")
    case True
    with Cons.prems have c0: "c = 0" by auto
    have "\<not> P y" if "y \<in> set xs" for y
    proof
      assume py: "P y"
      from that obtain j where j: "j < length xs" "xs ! j = y" by (auto simp: in_set_conv_nth)
      with py Cons.prems have "Suc j = c" by auto
      with c0 show False by simp
    qed
    then have "filter P xs = []" by (simp add: filter_empty_conv)
    with True show ?thesis by simp
  next
    case False
    from Cons.prems have "\<forall>j < length xs. P (xs ! j) \<longrightarrow> j = c - 1" by auto
    then have "length (filter P xs) \<le> 1" by (rule Cons.IH)
    with False show ?thesis by simp
  qed
qed

lemma only_current_runs_initial: "initial_configuration k \<Longrightarrow> only_current_runs k"
  by (auto simp: initial_configuration_def only_current_runs_def list_all_length)

lemma task_upd_only_current:
  assumes "task_upd i f k = Some k'"
    and "only_current_runs k"
    and "\<And>t. State (f t) = TASK_STATE_RUNNING \<Longrightarrow> State t = TASK_STATE_RUNNING"
  shows "only_current_runs k'"
  using assms
  by (auto simp: task_upd_def only_current_runs_def nth_list_update split: if_splits)

lemma only_current_runs_cong:
  "Tasks k' = Tasks k \<Longrightarrow> CurrentTaskIndex k' = CurrentTaskIndex k
   \<Longrightarrow> only_current_runs k \<Longrightarrow> only_current_runs k'"
  by (simp add: only_current_runs_def)

lemma only_current_runs_force: "only_current_runs k \<Longrightarrow> only_current_runs (Os_ForceSchedule k)"
  by (simp add: only_current_runs_def force_defs)

lemma set_event_only_current:
  assumes "Os_SetEvent t m k = Some k'" and "only_current_runs k"
  shows "only_current_runs k'"
  using assms(1)
proof (cases rule: Os_SetEvent_cases)
  case (quiet k1)
  from quiet(1) assms(2) have "only_current_runs k1" by (rule task_upd_only_current) simp
  with quiet(2) show ?thesis by simp
next
  case (woken k1 k2)
  from woken(1) assms(2) have "only_current_runs k1" by (rule task_upd_only_current) simp
  with woken(2) have "only_current_runs k2" by (rule task_upd_only_current) simp
  with woken(3) show ?thesis by (auto intro: only_current_runs_force)
qed

lemma wait_events_only_current:
  assumes "Os_WaitEvents m k = Some (x, k')" and "only_current_runs k"
  shows "only_current_runs k'"
  using assms(1)
proof (cases rule: Os_WaitEvents_cases)
  case (returned k1)
  from returned(1) assms(2) have "only_current_runs k1" by (rule task_upd_only_current) simp
  with returned(2) show ?thesis by simp
next
  case (polling k1 k2)
  from polling(1) assms(2) have "only_current_runs k1" by (rule task_upd_only_current) simp
  with polling(2) have "only_current_runs k2" by (rule task_upd_only_current) simp
  with polling(3) show ?thesis by (simp add: only_current_runs_force)
qed

lemma tick_timer_only_current:
  assumes "Os_TickTimer t k = Some k'" and "only_current_runs k"
  shows "only_current_runs k'"
  using assms(1)
proof (cases rule: Os_TickTimer_cases)
  case idle
  with assms(2) show ?thesis by simp
next
  case (counted k1)
  with assms(2) show ?thesis by (auto dest!: timer_upd_tasks intro: only_current_runs_cong)
next
  case (expired k1 ow ev)
  from expired(1) assms(2) have "only_current_runs k1"
    by (auto dest!: timer_upd_tasks intro: only_current_runs_cong)
  with expired(2) show ?thesis by (rule set_event_only_current)
qed

lemma only_current_runsI:
  assumes "\<And>i. i < length (Tasks k) \<Longrightarrow> i \<noteq> unat (CurrentTaskIndex k)
             \<Longrightarrow> State (Tasks k ! i) \<noteq> TASK_STATE_RUNNING"
  shows "only_current_runs k"
  using assms unfolding only_current_runs_def by blast

lemma only_current_runsD:
  assumes "only_current_runs k" and "i < length (Tasks k)" and "i \<noteq> unat (CurrentTaskIndex k)"
  shows "State (Tasks k ! i) \<noteq> TASK_STATE_RUNNING"
  using assms unfolding only_current_runs_def by blast

lemma task_upd_SomeD:
  assumes "task_upd i f k = Some k'"
  shows "unat i < length (Tasks k)" and "Tasks k' = (Tasks k)[unat i := f (Tasks k ! unat i)]"
    and "CurrentTaskIndex k' = CurrentTaskIndex k"
  using assms by (auto simp: task_upd_def split: if_splits)

lemma task_at_SomeD:
  assumes "task_at k i = Some d"
  shows "unat i < length (Tasks k)" and "d = Tasks k ! unat i"
  using assms by (auto simp: task_at_def split: if_splits)

lemma scheduler_only_current:
  assumes "Os_Scheduler k = Some k'" and "only_current_runs k"
  shows "only_current_runs k'"
  using assms(1)
proof (cases rule: Os_Scheduler_cases)
  case (keep n curr)
  with assms(2) show ?thesis by simp
next
  case (dispatch n curr k1)
  from dispatch(2,3) have nr: "State (Tasks k ! unat (CurrentTaskIndex k)) \<noteq> TASK_STATE_RUNNING"
    by (auto dest: task_at_SomeD)
  from dispatch(4,5) have T: "Tasks k' = (Tasks k)[unat n := (Tasks k ! unat n)\<lparr>State := TASK_STATE_RUNNING\<rparr>]"
    and C: "CurrentTaskIndex k' = n"
    by (simp_all add: task_upd_SomeD)
  show ?thesis
  proof (rule only_current_runsI)
    fix i assume i: "i < length (Tasks k')" and ne: "i \<noteq> unat (CurrentTaskIndex k')"
    from i ne T C have same: "Tasks k' ! i = Tasks k ! i" and i': "i < length (Tasks k)"
      by simp_all
    show "State (Tasks k' ! i) \<noteq> TASK_STATE_RUNNING"
    proof (cases "i = unat (CurrentTaskIndex k)")
      case True
      with nr same show ?thesis by simp
    next
      case False
      with assms(2) i' have "State (Tasks k ! i) \<noteq> TASK_STATE_RUNNING"
        by (rule only_current_runsD)
      with same show ?thesis by simp
    qed
  qed
next
  case (preempt n curr nxt k1 k2)
  let ?c = "unat (CurrentTaskIndex k)"
  from preempt(6) have T1: "Tasks k1 = (Tasks k)[?c := (Tasks k ! ?c)\<lparr>State := TASK_STATE_READY\<rparr>]"
    by (simp add: task_upd_SomeD)
  from preempt(7,8) have T2: "Tasks k' = (Tasks k1)[unat n := (Tasks k1 ! unat n)\<lparr>State := TASK_STATE_RUNNING\<rparr>]"
    and C: "CurrentTaskIndex k' = n"
    by (simp_all add: task_upd_SomeD)
  show ?thesis
  proof (rule only_current_runsI)
    fix i assume i: "i < length (Tasks k')" and ne: "i \<noteq> unat (CurrentTaskIndex k')"
    from i ne T1 T2 C have same: "Tasks k' ! i = Tasks k1 ! i" and i': "i < length (Tasks k)"
      by simp_all
    show "State (Tasks k' ! i) \<noteq> TASK_STATE_RUNNING"
    proof (cases "i = ?c")
      case True
      with T1 i' same show ?thesis by simp
    next
      case False
      with assms(2) i' have "State (Tasks k ! i) \<noteq> TASK_STATE_RUNNING"
        by (rule only_current_runsD)
      with False T1 same show ?thesis by simp
    qed
  qed
qed

lemma step_only_current:
  assumes "kernel_step c k = Some k'" and "only_current_runs k"
  shows "only_current_runs k'"
proof (cases c)
  case Schedule
  with assms show ?thesis by (simp add: scheduler_only_current)
next
  case (SetEvent t m)
  with assms show ?thesis by (simp add: set_event_only_current)
next
  case (ClearEvents m)
  with assms have "task_upd (CurrentTaskIndex k) (\<lambda>t. t\<lparr>Events := Events t AND NOT m\<rparr>) k = Some k'"
    by (simp add: Os_ClearEvents_def)
  from this assms(2) show ?thesis by (rule task_upd_only_current) simp
next
  case GetEvents
  with assms have "k' = k" by (auto simp: bind_eq_Some_conv)
  with assms(2) show ?thesis by simp
next
  case (WaitEvents m)
  with assms obtain x where "Os_WaitEvents m k = Some (x, k')" by auto
  from this assms(2) show ?thesis by (rule wait_events_only_current)
next
  case (GetResources m)
  with assms show ?thesis by (auto simp: Os_GetResources_def only_current_runs_def)
next
  case (ReleaseResources m)
  with assms show ?thesis
    by (auto simp: Os_ReleaseResources_def force_defs only_current_runs_def)
next
  case (SetTimer t v)
  with assms show ?thesis
    by (auto simp: Os_SetTimer_def dest!: timer_upd_tasks intro: only_current_runs_cong)
next
  case (TickTimer t)
  with assms show ?thesis by (simp add: tick_timer_only_current)
qed

lemma run_only_current:
  "kernel_run cs k = Some k' \<Longrightarrow> only_current_runs k \<Longrightarrow> only_current_runs k'"
proof (induction cs arbitrary: k)
  case Nil
  then show ?case by simp
next
  case (Cons c cs)
  from Cons.prems(1) obtain k1 where s: "kernel_step c k = Some k1"
    and r: "kernel_run cs k1 = Some k'"
    by (auto split: option.splits)
  from s Cons.prems(2) have "only_current_runs k1" by (rule step_only_current)
  with r show ?case by (rule Cons.IH)
qed

text \<open>
  C3. In every state reached from an initial configuration (all tasks ready, no events set,
  no resource held) by any sequence of the kernel operations \<open>Schedule\<close>, \<open>SetEvent\<close>,
  \<open>ClearEvents\<close>, \<open>GetEvents\<close>, \<open>WaitEvents\<close>, \<open>GetResources\<close>, \<open>ReleaseResources\<close>,
  \<open>SetTimer\<close> and \<open>TickTimer\<close>, at most one task descriptor of the table has state
  running.
\<close>

theorem at_most_one_running:
  assumes "initial_configuration k" and "kernel_run cs k = Some k'"
  shows "length (running_tasks k') \<le> 1"
proof -
  from assms(1) have "only_current_runs k" by (rule only_current_runs_initial)
  with assms(2) have "only_current_runs k'" by (rule run_only_current)
  then show ?thesis
    unfolding running_tasks_def only_current_runs_def by (rule filter_at_most_one)
qed

theorem at_most_one_running_witness:
  "initial_configuration ap_start
   \<and> (\<exists>k'. kernel_run [Schedule, WaitEvents 0x03, Schedule, SetEvent 1 0x02, Schedule] ap_start
              = Some k'
          \<and> task_states k' = [TASK_STATE_READY, TASK_STATE_RUNNING, TASK_STATE_READY,
                               TASK_STATE_READY]
          \<and> length (running_tasks k') \<le> 1)"
proof -
  have i: "initial_configuration ap_start"
    by (simp add: initial_configuration_def example_defs)
  obtain k' where
    r: "kernel_run [Schedule, WaitEvents 0x03, Schedule, SetEvent 1 0x02, Schedule] ap_start
          = Some k'"
    and s: "task_states k' = [TASK_STATE_READY, TASK_STATE_RUNNING, TASK_STATE_READY,
                              TASK_STATE_READY]"
  proof -
    have "map_option task_states
            (kernel_run [Schedule, WaitEvents 0x03, Schedule, SetEvent 1 0x02, Schedule] ap_start)
          = Some [TASK_STATE_READY, TASK_STATE_RUNNING, TASK_STATE_READY, TASK_STATE_READY]"
      by code_simp
    with that show thesis by auto
  qed
  from at_most_one_running [OF i r] i r s show ?thesis
    by blast
qed


lemma wait_events_mask_set:
  assumes "Os_WaitEvents w k0 = Some (x, k)"
  shows "\<exists>d. task_at k (CurrentTaskIndex k0) = Some d \<and> w AND WaitForEvents d = w"
proof -
  have absorb: "w AND (v OR w) = w" for v :: u8
    by (rule bit_word_eqI) (auto simp: bit_simps)
  from assms show ?thesis
    by (auto simp: Os_WaitEvents_def access_defs force_defs bind_eq_Some_conv absorb
        split: if_splits)
qed

lemma set_event_wakes:
  assumes "Os_SetEvent t m k = Some k'" and "task_at k t = Some d"
    and "WaitForEvents d AND (Events d OR m) \<noteq> 0"
  shows "map_option State (task_at k' t) = Some TASK_STATE_READY"
  using assms
  by (auto simp: Os_SetEvent_def access_defs force_defs bind_eq_Some_conv split: if_splits)

lemma masks_grow_at:
  assumes "masks_grow k k'" and "task_at k t = Some d"
  shows "\<exists>d'. task_at k' t = Some d' \<and> WaitForEvents d AND WaitForEvents d' = WaitForEvents d"
  using assms
  by (auto simp: masks_grow_def wait_masks_def list_all2_conv_all_nth task_at_def
      split: if_splits)

text \<open>
  C10. Over every sequence of kernel operations no task loses a bit of its wait mask
  (\<open>WaitForEvents\<close>): only \<open>Os_WaitEvents\<close> writes the field, and it ORs bits in.
  Consequently, once the current task has called \<open>Os_WaitEvents w\<close>, any later
  \<open>Os_SetEvent\<close> to that task with a bit of \<open>w\<close> leaves the task in state ready,
  whatever its state was, waiting or not.
\<close>

theorem wait_mask_never_shrinks:
  assumes "kernel_run cs k = Some k'"
  shows "masks_grow k k'
     \<and> (\<forall>w x k0 m k''.
           Os_WaitEvents w k0 = Some (x, k) \<and> m AND w \<noteq> 0
           \<and> Os_SetEvent (CurrentTaskIndex k0) m k' = Some k''
           \<longrightarrow> map_option State (task_at k'' (CurrentTaskIndex k0)) = Some TASK_STATE_READY)"
proof (intro conjI allI impI)
  from assms show g: "masks_grow k k'" by (rule run_masks)
  fix w x k0 m k''
  assume a: "Os_WaitEvents w k0 = Some (x, k) \<and> m AND w \<noteq> 0
           \<and> Os_SetEvent (CurrentTaskIndex k0) m k' = Some k''"
  let ?t = "CurrentTaskIndex k0"
  from a have a1: "Os_WaitEvents w k0 = Some (x, k)" and a2: "m AND w \<noteq> 0"
    and a3: "Os_SetEvent ?t m k' = Some k''"
    by blast+
  from a1 obtain d where d: "task_at k ?t = Some d" and wd: "w AND WaitForEvents d = w"
    using wait_events_mask_set by blast
  from g d obtain d' where d': "task_at k' ?t = Some d'"
    and dd': "WaitForEvents d AND WaitForEvents d' = WaitForEvents d"
    using masks_grow_at by blast
  from wd dd' have "w AND WaitForEvents d' = w" by (metis and.assoc)
  from this a2 have "WaitForEvents d' AND (Events d' OR m) \<noteq> 0"
    by (rule u8_mask_hit)
  with a3 d' show "map_option State (task_at k'' ?t) = Some TASK_STATE_READY"
    by (rule set_event_wakes)
qed

theorem wait_mask_never_shrinks_witness:
  "\<exists>k0 k k' k''.
      kernel_run [Schedule] ap_start = Some k0 \<and> CurrentTaskIndex k0 = 1
    \<and> Os_WaitEvents 0x03 k0 = Some (Polling, k)
    \<and> kernel_run [Schedule, SetEvent 1 0x02, Schedule, ClearEvents 0x02] k = Some k'
    \<and> masks_grow k k'
    \<and> map_option State (task_at k' 1) = Some TASK_STATE_RUNNING
    \<and> Os_SetEvent 1 0x01 k' = Some k''
    \<and> map_option State (task_at k'' 1) = Some TASK_STATE_READY"
proof -
  let ?sa = "the (kernel_run [Schedule] ap_start)"
  let ?sb = "snd (the (Os_WaitEvents 0x03 ?sa))"
  let ?cs = "[Schedule, SetEvent 1 0x02, Schedule, ClearEvents 0x02]"
  let ?sc = "the (kernel_run ?cs ?sb)"
  let ?sd = "the (Os_SetEvent 1 0x01 ?sc)"
  have e0: "kernel_run [Schedule] ap_start = Some ?sa" by code_simp
  have c0: "CurrentTaskIndex ?sa = 1" by code_simp
  have e1: "Os_WaitEvents 0x03 ?sa = Some (Polling, ?sb)" by code_simp
  have e2: "kernel_run ?cs ?sb = Some ?sc" by code_simp
  have r: "map_option State (task_at ?sc 1) = Some TASK_STATE_RUNNING" by code_simp
  have e3: "Os_SetEvent 1 0x01 ?sc = Some ?sd" by code_simp
  have hit: "(0x01 :: u8) AND 0x03 \<noteq> 0" by simp
  from wait_mask_never_shrinks [OF e2] have g: "masks_grow ?sb ?sc"
    and wake: "\<And>w x k0 m k''. Os_WaitEvents w k0 = Some (x, ?sb) \<Longrightarrow> m AND w \<noteq> 0
        \<Longrightarrow> Os_SetEvent (CurrentTaskIndex k0) m ?sc = Some k''
        \<Longrightarrow> map_option State (task_at k'' (CurrentTaskIndex k0)) = Some TASK_STATE_READY"
    by blast+
  from e3 c0 have "Os_SetEvent (CurrentTaskIndex ?sa) 0x01 ?sc = Some ?sd" by simp
  with e1 hit have "map_option State (task_at ?sd (CurrentTaskIndex ?sa)) = Some TASK_STATE_READY"
    by (rule wake)
  with c0 have "map_option State (task_at ?sd 1) = Some TASK_STATE_READY" by simp
  with e0 c0 e1 e2 g r e3 show ?thesis by blast
qed

section \<open>Timers\<close>

lemma tick_idle:
  assumes "timer_at k t = Some tm" "Value tm = 0"
  shows "Os_TickTimer t k = Some k"
  using assms by (simp add: Os_TickTimer_def)

lemma run_ticks_idle:
  assumes "timer_at k t = Some tm" "Value tm = 0"
  shows "kernel_run (replicate n (TickTimer t)) k = Some k"
  using assms by (induction n) (simp_all add: tick_idle)

text \<open>
  C7. For every timer \<open>t\<close> of the table: \<open>Os_TickTimer t\<close> does nothing when the timer's
  value is 0; when the value is positive it decrements it by one, and posts the timer's
  event to its owner task through \<open>Os_SetEvent\<close> exactly when the decrement reaches 0.
  After \<open>Os_SetTimer t 0\<close> any number of ticks changes no state, so posts no event. After
  \<open>Os_SetTimer t 3\<close> the first two ticks leave the owner's events as they were and the
  third sets the owner's event bit.
\<close>

theorem tick_timer_effect:
  assumes "timer_at k t = Some tm"
  shows "(Value tm = 0 \<longrightarrow> Os_TickTimer t k = Some k)
    \<and> (Value tm \<noteq> 0 \<longrightarrow>
         Os_TickTimer t k =
           (if Value tm - 1 = 0
            then Os_SetEvent (TaskID tm) (Event tm)
                   (k\<lparr>Timers := (Timers k)[unat t := tm\<lparr>Value := Value tm - 1\<rparr>]\<rparr>)
            else Some (k\<lparr>Timers := (Timers k)[unat t := tm\<lparr>Value := Value tm - 1\<rparr>]\<rparr>)))
    \<and> (\<exists>k0. Os_SetTimer t 0 k = Some k0
           \<and> (\<forall>n. kernel_run (replicate n (TickTimer t)) k0 = Some k0))
    \<and> (\<forall>d c. task_at k (TaskID tm) = Some d \<and> task_at k (CurrentTaskIndex k) = Some c \<longrightarrow>
          (\<exists>k2 k3 d2 d3.
              kernel_run [SetTimer t 3, TickTimer t, TickTimer t] k = Some k2
            \<and> task_at k2 (TaskID tm) = Some d2 \<and> Events d2 = Events d
            \<and> kernel_step (TickTimer t) k2 = Some k3
            \<and> task_at k3 (TaskID tm) = Some d3 \<and> Events d3 AND Event tm = Event tm))"
proof (intro conjI)
  show "Value tm = 0 \<longrightarrow> Os_TickTimer t k = Some k"
    using assms by (simp add: Os_TickTimer_def)
  show "Value tm \<noteq> 0 \<longrightarrow>
         Os_TickTimer t k =
           (if Value tm - 1 = 0
            then Os_SetEvent (TaskID tm) (Event tm)
                   (k\<lparr>Timers := (Timers k)[unat t := tm\<lparr>Value := Value tm - 1\<rparr>]\<rparr>)
            else Some (k\<lparr>Timers := (Timers k)[unat t := tm\<lparr>Value := Value tm - 1\<rparr>]\<rparr>))"
    using assms
    by (auto simp: Os_TickTimer_def access_defs word_greater_zero_iff split: if_splits)
  show "\<exists>k0. Os_SetTimer t 0 k = Some k0
           \<and> (\<forall>n. kernel_run (replicate n (TickTimer t)) k0 = Some k0)"
  proof -
    from assms obtain k0 where k0: "Os_SetTimer t 0 k = Some k0"
      and tm0: "timer_at k0 t = Some (tm\<lparr>Value := 0\<rparr>)"
      by (auto simp: Os_SetTimer_def access_defs split: if_splits)
    from tm0 have "kernel_run (replicate n (TickTimer t)) k0 = Some k0" for n
      by (rule run_ticks_idle) simp
    with k0 show ?thesis by blast
  qed
  show "\<forall>d c. task_at k (TaskID tm) = Some d \<and> task_at k (CurrentTaskIndex k) = Some c \<longrightarrow>
          (\<exists>k2 k3 d2 d3.
              kernel_run [SetTimer t 3, TickTimer t, TickTimer t] k = Some k2
            \<and> task_at k2 (TaskID tm) = Some d2 \<and> Events d2 = Events d
            \<and> kernel_step (TickTimer t) k2 = Some k3
            \<and> task_at k3 (TaskID tm) = Some d3 \<and> Events d3 AND Event tm = Event tm)"
    using assms
    by (auto simp: Os_SetTimer_def Os_TickTimer_def Os_SetEvent_def access_defs force_defs
        u8_or_and_self split: if_splits)
qed

theorem tick_timer_effect_witness:
  "timer_at ap_start 0 = Some \<lparr>Value = 0, TaskID = 1, Event = 0x01\<rparr>
   \<and> Os_TickTimer 0 ap_start = Some ap_start
   \<and> (\<exists>k0. Os_SetTimer 0 0 ap_start = Some k0
          \<and> (\<forall>n. kernel_run (replicate n (TickTimer 0)) k0 = Some k0))
   \<and> (\<exists>k2 k3 d2 d3.
          kernel_run [SetTimer 0 3, TickTimer 0, TickTimer 0] ap_start = Some k2
        \<and> task_at k2 1 = Some d2 \<and> Events d2 = 0
        \<and> kernel_step (TickTimer 0) k2 = Some k3
        \<and> task_at k3 1 = Some d3 \<and> Events d3 AND 0x01 = 0x01)"
proof -
  have h: "timer_at ap_start 0 = Some \<lparr>Value = 0, TaskID = 1, Event = 0x01\<rparr>"
    by (simp add: example_defs access_defs)
  have owner: "task_at ap_start 1 = Some (task_entry TASK_STATE_READY 0 0 0x61 3)"
    and cur: "task_at ap_start (CurrentTaskIndex ap_start) = Some (task_entry TASK_STATE_READY 0 0 0 0)"
    by (simp_all add: example_defs access_defs)
  from tick_timer_effect [OF h] owner cur h show ?thesis
    by (simp add: task_entry_def)
qed

section \<open>The selection loop\<close>

lemma u8_index_step:
  fixes i n :: u8
  assumes "i < n"
  shows "unat (i + 1) = Suc (unat i)" and "unat i < unat n"
  using assms by unat_arith+

lemma scan_post_found_iff:
  assumes "\<exists>j. i \<le> j \<and> candidate k j \<and> hp < prio k j"
  shows "scan_post k i nxt hp n \<longleftrightarrow>
     (i \<le> unat n \<and> candidate k (unat n) \<and> hp < prio k (unat n)
           \<and> (\<forall>j. i \<le> j \<and> candidate k j \<longrightarrow> prio k j \<le> prio k (unat n))
           \<and> (\<forall>j. i \<le> j \<and> j < unat n \<and> candidate k j \<longrightarrow> prio k j < prio k (unat n)))"
  unfolding scan_post_def by (rule if_P [OF assms])

lemma scan_post_none_iff:
  assumes "\<not> (\<exists>j. i \<le> j \<and> candidate k j \<and> hp < prio k j)"
  shows "scan_post k i nxt hp n \<longleftrightarrow> n = nxt"
  unfolding scan_post_def by (rule if_not_P [OF assms])

lemma scan_postI_found:
  assumes "i \<le> unat n" and "candidate k (unat n)" and "hp < prio k (unat n)"
    and "\<And>j. i \<le> j \<Longrightarrow> candidate k j \<Longrightarrow> prio k j \<le> prio k (unat n)"
    and "\<And>j. i \<le> j \<Longrightarrow> j < unat n \<Longrightarrow> candidate k j \<Longrightarrow> prio k j < prio k (unat n)"
  shows "scan_post k i nxt hp n"
proof -
  from assms(1-3) have ex: "\<exists>j. i \<le> j \<and> candidate k j \<and> hp < prio k j" by blast
  show ?thesis
    unfolding scan_post_found_iff [OF ex] using assms by blast
qed

lemma scan_postI_none:
  assumes "\<And>j. i \<le> j \<Longrightarrow> candidate k j \<Longrightarrow> \<not> hp < prio k j"
  shows "scan_post k i nxt hp nxt"
proof -
  from assms have ne: "\<not> (\<exists>j. i \<le> j \<and> candidate k j \<and> hp < prio k j)" by blast
  show ?thesis unfolding scan_post_none_iff [OF ne] ..
qed

lemma scan_post_foundD:
  assumes "scan_post k i nxt hp n" and "i \<le> j0" and "candidate k j0" and "hp < prio k j0"
  shows "i \<le> unat n" and "candidate k (unat n)" and "hp < prio k (unat n)"
    and "\<And>j. i \<le> j \<Longrightarrow> candidate k j \<Longrightarrow> prio k j \<le> prio k (unat n)"
    and "\<And>j. i \<le> j \<Longrightarrow> j < unat n \<Longrightarrow> candidate k j \<Longrightarrow> prio k j < prio k (unat n)"
proof -
  from assms(2-4) have ex: "\<exists>j. i \<le> j \<and> candidate k j \<and> hp < prio k j" by blast
  from assms(1) have all: "i \<le> unat n \<and> candidate k (unat n) \<and> hp < prio k (unat n)
           \<and> (\<forall>j. i \<le> j \<and> candidate k j \<longrightarrow> prio k j \<le> prio k (unat n))
           \<and> (\<forall>j. i \<le> j \<and> j < unat n \<and> candidate k j \<longrightarrow> prio k j < prio k (unat n))"
    unfolding scan_post_found_iff [OF ex] .
  from all show "i \<le> unat n" and "candidate k (unat n)" and "hp < prio k (unat n)"
    by blast+
  from all show "\<And>j. i \<le> j \<Longrightarrow> candidate k j \<Longrightarrow> prio k j \<le> prio k (unat n)"
    by blast
  from all show "\<And>j. i \<le> j \<Longrightarrow> j < unat n \<Longrightarrow> candidate k j \<Longrightarrow> prio k j < prio k (unat n)"
    by blast
qed

lemma scan_post_noneD:
  assumes "scan_post k i nxt hp n" and "\<And>j. i \<le> j \<Longrightarrow> candidate k j \<Longrightarrow> \<not> hp < prio k j"
  shows "n = nxt"
proof -
  from assms(2) have ne: "\<not> (\<exists>j. i \<le> j \<and> candidate k j \<and> hp < prio k j)" by blast
  from assms(1) show ?thesis unfolding scan_post_none_iff [OF ne] .
qed

lemma scan_post_done:
  assumes "unat (NrTasks k) \<le> i"
  shows "scan_post k i nxt hp nxt"
proof (rule scan_postI_none)
  fix j assume "i \<le> j" and "candidate k j"
  with assms show "\<not> hp < prio k j" by (simp add: candidate_def)
qed

lemma scan_post_skip:
  assumes "scan_post k (Suc i) nxt hp n" and "\<not> (candidate k i \<and> hp < prio k i)"
  shows "scan_post k i nxt hp n"
proof (cases "\<exists>j. Suc i \<le> j \<and> candidate k j \<and> hp < prio k j")
  case True
  then obtain j0 where j0: "Suc i \<le> j0" "candidate k j0" "hp < prio k j0" by blast
  note p = scan_post_foundD [OF assms(1) j0]
  have here: "prio k i < prio k (unat n)" if "candidate k i"
  proof -
    from that assms(2) have "prio k i \<le> hp" by (simp add: not_less)
    with p(3) show ?thesis by simp
  qed
  show ?thesis
  proof (rule scan_postI_found)
    from p(1) show "i \<le> unat n" by simp
    show "candidate k (unat n)" by (rule p(2))
    show "hp < prio k (unat n)" by (rule p(3))
  next
    fix j assume j: "i \<le> j" "candidate k j"
    show "prio k j \<le> prio k (unat n)"
    proof (cases "j = i")
      case True
      with j here show ?thesis by simp
    next
      case False
      with j have "Suc i \<le> j" by simp
      with j show ?thesis by (simp add: p(4))
    qed
  next
    fix j assume j: "i \<le> j" "j < unat n" "candidate k j"
    show "prio k j < prio k (unat n)"
    proof (cases "j = i")
      case True
      with j here show ?thesis by simp
    next
      case False
      with j have "Suc i \<le> j" by simp
      with j show ?thesis by (simp add: p(5))
    qed
  qed
next
  case False
  have none: "\<not> hp < prio k j" if "i \<le> j" "candidate k j" for j
  proof (cases "j = i")
    case True
    with assms(2) that show ?thesis by simp
  next
    case ne: False
    with that have "Suc i \<le> j" by simp
    with False that show ?thesis by blast
  qed
  from False have "\<And>j. Suc i \<le> j \<Longrightarrow> candidate k j \<Longrightarrow> \<not> hp < prio k j" by blast
  with assms(1) have "n = nxt" by (rule scan_post_noneD)
  moreover from none have "scan_post k i nxt hp nxt" by (rule scan_postI_none)
  ultimately show ?thesis by simp
qed

lemma scan_post_take:
  fixes iw :: u8
  defines "i \<equiv> unat iw"
  assumes "scan_post k (Suc i) iw (prio k i) n" and "candidate k i" and "hp < prio k i"
  shows "scan_post k i nxt hp n"
proof (cases "\<exists>j. Suc i \<le> j \<and> candidate k j \<and> prio k i < prio k j")
  case True
  then obtain j0 where j0: "Suc i \<le> j0" "candidate k j0" "prio k i < prio k j0" by blast
  note p = scan_post_foundD [OF assms(2) j0]
  show ?thesis
  proof (rule scan_postI_found)
    from p(1) show "i \<le> unat n" by simp
    show "candidate k (unat n)" by (rule p(2))
    from assms(4) p(3) show "hp < prio k (unat n)" by simp
  next
    fix j assume j: "i \<le> j" "candidate k j"
    show "prio k j \<le> prio k (unat n)"
    proof (cases "j = i")
      case True
      with p(3) show ?thesis by simp
    next
      case False
      with j have "Suc i \<le> j" by simp
      with j show ?thesis by (simp add: p(4))
    qed
  next
    fix j assume j: "i \<le> j" "j < unat n" "candidate k j"
    show "prio k j < prio k (unat n)"
    proof (cases "j = i")
      case True
      with p(3) show ?thesis by simp
    next
      case False
      with j have "Suc i \<le> j" by simp
      with j show ?thesis by (simp add: p(5))
    qed
  qed
next
  case False
  then have "\<And>j. Suc i \<le> j \<Longrightarrow> candidate k j \<Longrightarrow> \<not> prio k i < prio k j" by blast
  with assms(2) have "n = iw" by (rule scan_post_noneD)
  then have n: "unat n = i" by (simp add: i_def)
  show ?thesis
  proof (rule scan_postI_found)
    from n show "i \<le> unat n" by simp
    from n assms(3) show "candidate k (unat n)" by simp
    from n assms(4) show "hp < prio k (unat n)" by simp
  next
    fix j assume j: "i \<le> j" "candidate k j"
    show "prio k j \<le> prio k (unat n)"
    proof (cases "j = i")
      case True
      with n show ?thesis by simp
    next
      case ne: False
      with j have "Suc i \<le> j" by simp
      with False j have "\<not> prio k i < prio k j" by blast
      with n show ?thesis by (simp add: not_less)
    qed
  next
    fix j assume "i \<le> j" "j < unat n" "candidate k j"
    with n show "prio k j < prio k (unat n)" by simp
  qed
qed

lemma scan_spec:
  assumes "unat (NrTasks k) \<le> length (Tasks k)"
  shows "\<exists>n. Os_Scheduler_scan k i nxt hp = Some n \<and> scan_post k (unat i) nxt hp n"
  using assms
proof (induction k i nxt hp rule: Os_Scheduler_scan.induct)
  case (1 k i nxt hp)
  show ?case
  proof (cases "i < NrTasks k")
    case False
    then have "unat (NrTasks k) \<le> unat i" by (simp add: word_less_nat_alt)
    then have "scan_post k (unat i) nxt hp nxt" by (rule scan_post_done)
    moreover from False have "Os_Scheduler_scan k i nxt hp = Some nxt"
      by (subst Os_Scheduler_scan.simps) simp
    ultimately show ?thesis by simp
  next
    case True
    then have ui: "unat (i + 1) = Suc (unat i)" and lt: "unat i < unat (NrTasks k)"
      by (rule u8_index_step)+
    let ?t = "Tasks k ! unat i"
    from lt "1.prems" have t: "task_at k i = Some ?t" by (simp add: task_at_def)
    from lt have cand: "candidate k (unat i) \<longleftrightarrow> State ?t = TASK_STATE_READY
        \<and> RequiredResources ?t AND ResourcesOccupied k = 0"
      by (simp add: candidate_def eligible_def)
    show ?thesis
    proof (cases "candidate k (unat i) \<and> hp < Priority ?t")
      case take: True
      with True t cand have eq: "Os_Scheduler_scan k i nxt hp
                             = Os_Scheduler_scan k (i + 1) i (Priority ?t)"
        by (subst Os_Scheduler_scan.simps) simp
      from take cand have "State ?t = TASK_STATE_READY
          \<and> RequiredResources ?t AND ResourcesOccupied k = 0" "hp < Priority ?t"
        by simp_all
      with "1.IH"(1) [OF True t] "1.prems" obtain n where
        n: "Os_Scheduler_scan k (i + 1) i (Priority ?t) = Some n"
        and post: "scan_post k (unat (i + 1)) i (Priority ?t) n"
        by blast
      from post ui have "scan_post k (Suc (unat i)) i (prio k (unat i)) n"
        by (simp add: prio_def)
      moreover from take have "candidate k (unat i)" and "hp < prio k (unat i)"
        by (simp_all add: prio_def)
      ultimately have "scan_post k (unat i) nxt hp n"
        by (rule scan_post_take)
      with eq n show ?thesis by simp
    next
      case skip: False
      with True t cand have eq: "Os_Scheduler_scan k i nxt hp
                             = Os_Scheduler_scan k (i + 1) nxt hp"
        by (subst Os_Scheduler_scan.simps) auto
      have "\<exists>n. Os_Scheduler_scan k (i + 1) nxt hp = Some n
              \<and> scan_post k (unat (i + 1)) nxt hp n"
      proof (cases "State ?t = TASK_STATE_READY \<and> RequiredResources ?t AND ResourcesOccupied k = 0")
        case el: True
        with skip cand have "\<not> hp < Priority ?t" by simp
        with "1.IH"(2) [OF True t el] "1.prems" show ?thesis by blast
      next
        case nel: False
        with "1.IH"(3) [OF True t] "1.prems" show ?thesis by blast
      qed
      then obtain n where n: "Os_Scheduler_scan k (i + 1) nxt hp = Some n"
        and post: "scan_post k (Suc (unat i)) nxt hp n"
        using ui by auto
      from skip have "\<not> (candidate k (unat i) \<and> hp < prio k (unat i))"
        by (simp add: prio_def)
      with post have "scan_post k (unat i) nxt hp n"
        by (rule scan_post_skip)
      with eq n show ?thesis by simp
    qed
  qed
qed

lemma scan_from_start:
  assumes "unat (NrTasks k) \<le> length (Tasks k)"
  shows "\<exists>n. Os_Scheduler_scan k 0 0 0 = Some n \<and> scan_post k 0 0 0 n"
  using scan_spec [OF assms, of 0 0 0] by simp

text \<open>
  What the loop selects, in the terms of the scheduler's description: when some ready,
  unblocked task has a priority above 0, a ready, unblocked task of the highest priority;
  when none has, index 0, whatever the state and resources of that task.
\<close>

lemma scan_selects_highest:
  assumes "unat (NrTasks k) \<le> length (Tasks k)" and "candidate k j0" and "0 < prio k j0"
  shows "\<exists>n. Os_Scheduler_scan k 0 0 0 = Some n \<and> candidate k (unat n)
           \<and> (\<forall>j. candidate k j \<longrightarrow> prio k j \<le> prio k (unat n))"
proof -
  from scan_from_start [OF assms(1)] obtain n where
    n: "Os_Scheduler_scan k 0 0 0 = Some n" and post: "scan_post k 0 0 0 n"
    by blast
  have "(0::nat) \<le> j0" by simp
  note p = scan_post_foundD [OF post this assms(2,3)]
  have "prio k j \<le> prio k (unat n)" if "candidate k j" for j
    using that by (intro p(4)) simp_all
  with n p(2) show ?thesis by blast
qed

lemma scan_falls_back_to_first:
  assumes "unat (NrTasks k) \<le> length (Tasks k)" and "\<And>j. candidate k j \<Longrightarrow> prio k j = 0"
  shows "Os_Scheduler_scan k 0 0 0 = Some 0"
proof -
  from scan_from_start [OF assms(1)] obtain n where
    n: "Os_Scheduler_scan k 0 0 0 = Some n" and post: "scan_post k 0 0 0 n"
    by blast
  have "\<not> 0 < prio k j" if "candidate k j" for j
    using assms(2) [OF that] by simp
  with post have "n = 0" by (intro scan_post_noneD [OF post]) simp_all
  with n show ?thesis by simp
qed

text \<open>
  C9, as amended. For every task table (with at least \<open>NrTasks\<close> entries) in which two or
  more ready and eligible tasks share the highest priority among the ready and eligible
  tasks, and that priority is greater than 0, the scheduler's loop selects the task of
  lowest index among those tied tasks.
\<close>

theorem scan_ties_lowest_index:
  assumes "unat (NrTasks k) \<le> length (Tasks k)"
    and "candidate k a" and "candidate k b" and "a \<noteq> b" and "prio k a = prio k b"
    and "\<forall>j. candidate k j \<longrightarrow> prio k j \<le> prio k a"
    and "0 < prio k a"
  shows "\<exists>n. Os_Scheduler_scan k 0 0 0 = Some n \<and> candidate k (unat n)
           \<and> prio k (unat n) = prio k a
           \<and> (\<forall>j. candidate k j \<and> prio k j = prio k a \<longrightarrow> unat n \<le> j)"
proof -
  from scan_from_start [OF assms(1)] obtain n where
    n: "Os_Scheduler_scan k 0 0 0 = Some n" and post: "scan_post k 0 0 0 n"
    by blast
  have a0: "(0::nat) \<le> a" by simp
  note p = scan_post_foundD [OF post a0 assms(2) assms(7)]
  from p(2) assms(6) have "prio k (unat n) \<le> prio k a" by blast
  moreover from assms(2) have "prio k a \<le> prio k (unat n)" by (intro p(4)) simp_all
  ultimately have eq: "prio k (unat n) = prio k a" by simp
  have "unat n \<le> j" if "candidate k j" "prio k j = prio k a" for j
  proof (rule ccontr)
    assume "\<not> unat n \<le> j"
    then have "j < unat n" by simp
    with that(1) have "prio k j < prio k (unat n)" by (intro p(5)) simp_all
    with that(2) eq show False by simp
  qed
  with n p(2) eq show ?thesis by blast
qed

theorem scan_ties_lowest_index_witness:
  "unat (NrTasks tie_at_top) \<le> length (Tasks tie_at_top)
   \<and> candidate tie_at_top 2 \<and> candidate tie_at_top 3
   \<and> prio tie_at_top 2 = prio tie_at_top 3 \<and> 0 < prio tie_at_top 2
   \<and> Os_Scheduler_scan tie_at_top 0 0 0 = Some 2"
proof -
  have len: "unat (NrTasks tie_at_top) \<le> length (Tasks tie_at_top)"
    by (simp add: example_defs tie_at_top_def)
  have c2: "candidate tie_at_top 2" and c3: "candidate tie_at_top 3"
    and eq: "prio tie_at_top 2 = prio tie_at_top 3" and pos: "0 < prio tie_at_top 2"
    by (simp_all add: example_defs tie_at_top_def candidate_def eligible_def prio_def)
  have top: "\<forall>j. candidate tie_at_top j \<longrightarrow> prio tie_at_top j \<le> prio tie_at_top 2"
  proof (intro allI impI)
    fix j assume "candidate tie_at_top j"
    then have "j < 4" by (simp add: candidate_def example_defs tie_at_top_def)
    then consider "j = 0" | "j = 1" | "j = 2" | "j = 3" by linarith
    then show "prio tie_at_top j \<le> prio tie_at_top 2"
      by cases (simp_all add: example_defs tie_at_top_def prio_def)
  qed
  have ne: "(2::nat) \<noteq> 3" by simp
  from scan_ties_lowest_index [OF len c2 c3 ne eq top pos] obtain n where
    n: "Os_Scheduler_scan tie_at_top 0 0 0 = Some n" and "candidate tie_at_top (unat n)"
    and "prio tie_at_top (unat n) = prio tie_at_top 2"
    and least: "\<forall>j. candidate tie_at_top j \<and> prio tie_at_top j = prio tie_at_top 2 \<longrightarrow> unat n \<le> j"
    by blast
  from least c2 have "unat n \<le> 2" by blast
  then consider "unat n = 0" | "unat n = 1" | "unat n = 2" by linarith
  then have "unat n = 2"
  proof cases
    case 1
    with \<open>prio tie_at_top (unat n) = prio tie_at_top 2\<close> show ?thesis
      by (simp add: example_defs tie_at_top_def prio_def)
  next
    case 2
    with \<open>prio tie_at_top (unat n) = prio tie_at_top 2\<close> show ?thesis
      by (simp add: example_defs tie_at_top_def prio_def)
  next
    case 3
    then show ?thesis .
  qed
  then have "n = 2" by (simp add: word_unat_eq_iff)
  with n len c2 c3 eq pos show ?thesis by simp
qed

text \<open>
  Two tasks tied below the highest priority: neither is selected. Two tasks tied at
  priority 0, the only ready and eligible ones, behind a waiting task: the waiting task at
  index 0 is selected.
\<close>

theorem scan_ties_counterexample:
  "candidate tie_below_top 2 \<and> candidate tie_below_top 3
   \<and> prio tie_below_top 2 = prio tie_below_top 3
   \<and> Os_Scheduler_scan tie_below_top 0 0 0 = Some 1
   \<and> kernel_run [Schedule, WaitEvents 0x01] two_at_zero = Some two_at_zero_waits
   \<and> \<not> candidate two_at_zero_waits 0
   \<and> candidate two_at_zero_waits 1 \<and> candidate two_at_zero_waits 2
   \<and> prio two_at_zero_waits 1 = prio two_at_zero_waits 2
   \<and> Os_Scheduler_scan two_at_zero_waits 0 0 0 = Some 0"
  by code_simp


text \<open>
  C1 on the table \<open>worker_first\<close>, whose priorities are unique, after its task of
  priority 1 has called \<open>Os_WaitEvents\<close>: the idle task at index 1 is the only task that is
  ready with no required resource occupied, yet the loop selects index 0 and the scheduler
  makes the waiting task the running one.
\<close>

theorem scheduler_passes_over_idle_task:
  "kernel_run [Schedule, WaitEvents 0x01] worker_first = Some worker_waits
   \<and> \<not> candidate worker_waits 0 \<and> candidate worker_waits 1
   \<and> Os_Scheduler_scan worker_waits 0 0 0 = Some 0
   \<and> map_option task_states (Os_Scheduler worker_waits)
       = Some [TASK_STATE_RUNNING, TASK_STATE_READY]
   \<and> map_option CurrentTaskIndex (Os_Scheduler worker_waits) = Some 0"
  by code_simp

text \<open>
  C2 on two runs. On \<open>worker_waits\<close> the scheduler dispatches task 0, which is waiting. On
  \<open>shared_resource\<close> task 1 takes resource 0x01 and is then sent an event of its wait mask
  while it runs; the next scheduling dispatches task 0, which requires the occupied
  resource.
\<close>

theorem scheduler_dispatches_ineligible_task:
  "task_states worker_waits = [TASK_STATE_WAITING, TASK_STATE_READY]
   \<and> map_option CurrentTask (Os_Scheduler worker_waits) = Some (TaskSlot 0)
   \<and> map_option task_states
        (kernel_run [Schedule, WaitEvents 0x01, Schedule, SetEvent 1 0x01, Schedule,
                     ClearEvents 0x01, GetResources 0x01, SetEvent 1 0x01] shared_resource)
       = Some [TASK_STATE_READY, TASK_STATE_READY, TASK_STATE_READY]
   \<and> map_option ResourcesOccupied
        (kernel_run [Schedule, WaitEvents 0x01, Schedule, SetEvent 1 0x01, Schedule,
                     ClearEvents 0x01, GetResources 0x01, SetEvent 1 0x01] shared_resource)
       = Some 0x01
   \<and> map_option CurrentTask
        (kernel_run [Schedule, WaitEvents 0x01, Schedule, SetEvent 1 0x01, Schedule,
                     ClearEvents 0x01, GetResources 0x01, SetEvent 1 0x01, Schedule]
           shared_resource)
       = Some (TaskSlot 0)
   \<and> map_option task_states
        (kernel_run [Schedule, WaitEvents 0x01, Schedule, SetEvent 1 0x01, Schedule,
                     ClearEvents 0x01, GetResources 0x01, SetEvent 1 0x01, Schedule]
           shared_resource)
       = Some [TASK_STATE_RUNNING, TASK_STATE_READY, TASK_STATE_READY]"
  by code_simp

text \<open>
  C8 on two runs. In the demo application the game timer expires while the model task
  runs: \<open>Os_TickTimer\<close> moves the model task from running to ready, with no scheduler
  call. On \<open>worker_first\<close> the scheduler moves task 0 from waiting to running.
\<close>

theorem transitions_outside_state_machine:
  "map_option task_states
     (kernel_run [Schedule, WaitEvents 0x03, Schedule, SetEvent 1 0x02, Schedule,
                  ClearEvents 0x02, SetTimer 0 1] ap_start)
     = Some [TASK_STATE_READY, TASK_STATE_RUNNING, TASK_STATE_READY, TASK_STATE_READY]
   \<and> map_option task_states
     (kernel_run [Schedule, WaitEvents 0x03, Schedule, SetEvent 1 0x02, Schedule,
                  ClearEvents 0x02, SetTimer 0 1, TickTimer 0] ap_start)
     = Some [TASK_STATE_READY, TASK_STATE_READY, TASK_STATE_READY, TASK_STATE_READY]
   \<and> map_option task_states (kernel_run [Schedule, WaitEvents 0x01] worker_first)
     = Some [TASK_STATE_WAITING, TASK_STATE_READY]
   \<and> map_option task_states (kernel_run [Schedule, WaitEvents 0x01, Schedule] worker_first)
     = Some [TASK_STATE_RUNNING, TASK_STATE_READY]"
  by code_simp

end
